theory Spec2Isabelle
  imports Main
begin

section \<open>Data model of LLD.cpp\<close>

text \<open>
  The C++ program keeps a parking lot as a vector of floors, each floor a vector of
  spots, together with two hash maps keyed by licence plate. The embedding keeps the
  classes as records and the enum as a datatype. Pointers are never shared between
  floors or between spots, so vectors of pointers become lists of values.
\<close>

datatype VehicleType = Bike | Car | Truck

record Vehicle =
  licensePlate :: string
  type :: VehicleType

record ParkingSpot =
  floorNumber :: int
  spotNumber :: int
  isOccupied :: bool
  parkedVehicle :: string

record Floor =
  floorNumber :: int
  spots :: "ParkingSpot list"

record ParkingLot =
  vehicleLocations :: "string \<rightharpoonup> int \<times> int list"
  vehiclesMap :: "string \<rightharpoonup> Vehicle"
  floors :: "Floor list"

text \<open>
  Indexing a vector outside its bounds is undefined behaviour in C++; the embedding
  makes it the error value \<open>OutOfRange\<close>, so a function that can reach such an access
  returns a sum.
\<close>

datatype error = OutOfRange

text \<open>
  The Lot operations report through \<open>cout\<close> and return only a \<open>bool\<close>. Each line they
  print is one \<open>message\<close>; an operation returns its \<open>bool\<close>, the lines printed and the
  lot afterwards.
\<close>

datatype message =
    MsgAlreadyParked string
  | MsgParked string int "int list"
  | MsgLotFull string
  | MsgNotFound string
  | MsgRemoved string int
  | MsgLocation string int "int list"

section \<open>Machine integers\<close>

text \<open>
  \<open>size_t\<close> is a 64-bit unsigned integer: \<open>spots.size() - 1\<close> and \<open>++i\<close> wrap around
  modulo \<open>2 ^ 64\<close>. \<open>(int)spots.size()\<close> keeps the low 32 bits, read as two's complement.
  An \<open>int\<close> argument of a constructor lies in the 32-bit signed range.
\<close>

definition size_minus_one :: "nat \<Rightarrow> nat" where
  "size_minus_one n = (n + (2 ^ 64 - 1)) mod 2 ^ 64"

definition size_succ :: "nat \<Rightarrow> nat" where
  "size_succ i = (i + 1) mod 2 ^ 64"

definition int_of_size :: "nat \<Rightarrow> int" where
  "int_of_size n = (let m = int n mod 2 ^ 32 in if m < 2 ^ 31 then m else m - 2 ^ 32)"

definition int_range :: "int \<Rightarrow> bool" where
  "int_range n \<longleftrightarrow> - (2 ^ 31) \<le> n \<and> n < 2 ^ 31"

section \<open>Vehicle and ParkingSpot\<close>

definition getRequiredSpots :: "Vehicle \<Rightarrow> int" where
  "getRequiredSpots v = (if type v = Truck then 2 else 1)"

definition ParkingSpot_new :: "int \<Rightarrow> int \<Rightarrow> ParkingSpot" where
  "ParkingSpot_new fn sn =
     \<lparr>ParkingSpot.floorNumber = fn, spotNumber = sn, isOccupied = False, parkedVehicle = []\<rparr>"

definition assignVehicle :: "ParkingSpot \<Rightarrow> string \<Rightarrow> bool \<times> ParkingSpot" where
  "assignVehicle spot plate =
     (if isOccupied spot then (False, spot)
      else (True, spot\<lparr>parkedVehicle := plate, isOccupied := True\<rparr>))"

definition ParkingSpot_removeVehicle :: "ParkingSpot \<Rightarrow> bool \<times> ParkingSpot" where
  "ParkingSpot_removeVehicle spot =
     (if \<not> isOccupied spot then (False, spot)
      else (True, spot\<lparr>parkedVehicle := [], isOccupied := False\<rparr>))"

section \<open>Floor\<close>

definition Floor_new :: "int \<Rightarrow> int \<Rightarrow> Floor" where
  "Floor_new fn numSpots =
     \<lparr>Floor.floorNumber = fn,
      spots = map (\<lambda>i. ParkingSpot_new fn (int i)) [0..<nat numSpots]\<rparr>"

text \<open>The range-for loop of \<open>findAvailableSpots\<close> for one required spot.\<close>

fun find_one :: "ParkingSpot list \<Rightarrow> int list" where
  "find_one [] = []"
| "find_one (spot # rest) =
     (if \<not> isOccupied spot then [spotNumber spot] else find_one rest)"

text \<open>
  The indexed loop for two required spots, \<open>for (size_t i = 0; i < spots.size() - 1; ++i)\<close>.
  The condition \<open>!spots[i]->isOccupied && !spots[i+1]->isOccupied\<close> reads \<open>spots[i]\<close>
  first and \<open>spots[i+1]\<close> only when the first spot is free.
\<close>

function find_two :: "ParkingSpot list \<Rightarrow> nat \<Rightarrow> error + int list" where
  "find_two spts i =
     (if i < size_minus_one (length spts) then
        (if length spts \<le> i then Inl OutOfRange
         else if \<not> isOccupied (spts ! i) then
           (if length spts \<le> size_succ i then Inl OutOfRange
            else if \<not> isOccupied (spts ! size_succ i)
              then Inr [spotNumber (spts ! i), spotNumber (spts ! size_succ i)]
              else find_two spts (size_succ i))
         else find_two spts (size_succ i))
      else Inr [])"
  by pat_completeness auto
termination
proof (relation "measure (\<lambda>(spts, i). size_minus_one (length spts) - i)")
  show "wf (measure (\<lambda>(spts, i). size_minus_one (length spts) - i))"
    by simp
next
  fix spts :: "ParkingSpot list" and i :: nat
  assume lt: "i < size_minus_one (length spts)"
  have "size_minus_one (length spts) < 2 ^ 64"
    by (simp add: size_minus_one_def)
  with lt have "size_succ i = i + 1"
    by (simp add: size_succ_def)
  with lt show "((spts, size_succ i), (spts, i))
      \<in> measure (\<lambda>(spts, i). size_minus_one (length spts) - i)"
    by simp
  then show "((spts, size_succ i), (spts, i))
      \<in> measure (\<lambda>(spts, i). size_minus_one (length spts) - i)" .
qed

declare find_two.simps [simp del]

definition findAvailableSpots :: "Floor \<Rightarrow> Vehicle \<Rightarrow> error + int list" where
  "findAvailableSpots fl vehicle =
     (let required = getRequiredSpots vehicle in
      if required = 1 then Inr (find_one (spots fl))
      else if required = 2 then find_two (spots fl) 0
      else Inr [])"

text \<open>
  \<open>Floor::parkVehicle\<close>: the first loop returns false at the first index that is negative,
  not below \<open>(int)spots.size()\<close> or occupied; the second loop assigns every index.
\<close>

fun spots_available :: "ParkingSpot list \<Rightarrow> int list \<Rightarrow> bool" where
  "spots_available spts [] = True"
| "spots_available spts (idx # rest) =
     (if idx < 0 \<or> int_of_size (length spts) \<le> idx \<or> isOccupied (spts ! nat idx)
      then False else spots_available spts rest)"

fun assign_spots :: "string \<Rightarrow> ParkingSpot list \<Rightarrow> int list \<Rightarrow> ParkingSpot list" where
  "assign_spots plate spts [] = spts"
| "assign_spots plate spts (idx # rest) =
     assign_spots plate (spts[nat idx := snd (assignVehicle (spts ! nat idx) plate)]) rest"

definition Floor_parkVehicle :: "Floor \<Rightarrow> Vehicle \<Rightarrow> int list \<Rightarrow> bool \<times> Floor" where
  "Floor_parkVehicle fl vehicle spotNumbers =
     (if \<not> spots_available (spots fl) spotNumbers then (False, fl)
      else (True, fl\<lparr>spots := assign_spots (licensePlate vehicle) (spots fl) spotNumbers\<rparr>))"

text \<open>\<open>Floor::removeVehicle\<close>: one pass over the spots, carrying the flag \<open>removed\<close>.\<close>

fun release_spots :: "string \<Rightarrow> ParkingSpot list \<Rightarrow> bool \<Rightarrow> bool \<times> ParkingSpot list" where
  "release_spots plate [] removed = (removed, [])"
| "release_spots plate (spot # rest) removed =
     (if isOccupied spot \<and> parkedVehicle spot = plate
      then (case release_spots plate rest True of
              (r, rest') \<Rightarrow> (r, snd (ParkingSpot_removeVehicle spot) # rest'))
      else (case release_spots plate rest removed of
              (r, rest') \<Rightarrow> (r, spot # rest')))"

definition Floor_removeVehicle :: "Floor \<Rightarrow> string \<Rightarrow> bool \<times> Floor" where
  "Floor_removeVehicle fl plate =
     (case release_spots plate (spots fl) False of
        (removed, spts') \<Rightarrow> (removed, fl\<lparr>spots := spts'\<rparr>))"

definition availableSpotsCount :: "Floor \<Rightarrow> int" where
  "availableSpotsCount fl =
     fold (\<lambda>spot count. if \<not> isOccupied spot then count + 1 else count) (spots fl) 0"

section \<open>ParkingLot\<close>

definition ParkingLot_new :: "int \<Rightarrow> int \<Rightarrow> ParkingLot" where
  "ParkingLot_new numFloors spotsPerFloor =
     \<lparr>vehicleLocations = Map.empty, vehiclesMap = Map.empty,
      floors = map (\<lambda>i. Floor_new (int i) spotsPerFloor) [0..<nat numFloors]\<rparr>"

text \<open>
  The loop over the floors in \<open>ParkingLot::parkVehicle\<close>. It returns the location it
  committed, if any, and the floors as the loop left them.
\<close>

fun park_floors ::
  "Vehicle \<Rightarrow> Floor list \<Rightarrow> error + ((int \<times> int list) option \<times> Floor list)" where
  "park_floors vehicle [] = Inr (None, [])"
| "park_floors vehicle (fl # rest) =
     (case findAvailableSpots fl vehicle of
        Inl e \<Rightarrow> Inl e
      | Inr availableSpots \<Rightarrow>
          (if availableSpots \<noteq> [] then
             (case Floor_parkVehicle fl vehicle availableSpots of
                (True, fl') \<Rightarrow> Inr (Some (Floor.floorNumber fl', availableSpots), fl' # rest)
              | (False, fl') \<Rightarrow>
                  (case park_floors vehicle rest of
                     Inl e \<Rightarrow> Inl e
                   | Inr (res, rest') \<Rightarrow> Inr (res, fl' # rest')))
           else
             (case park_floors vehicle rest of
                Inl e \<Rightarrow> Inl e
              | Inr (res, rest') \<Rightarrow> Inr (res, fl # rest'))))"

definition ParkingLot_parkVehicle ::
  "ParkingLot \<Rightarrow> Vehicle \<Rightarrow> error + (bool \<times> message list \<times> ParkingLot)" where
  "ParkingLot_parkVehicle lot vehicle =
     (if vehicleLocations lot (licensePlate vehicle) \<noteq> None
      then Inr (False, [MsgAlreadyParked (licensePlate vehicle)], lot)
      else
        (case park_floors vehicle (floors lot) of
           Inl e \<Rightarrow> Inl e
         | Inr (Some (fnum, availableSpots), floors') \<Rightarrow>
             Inr (True, [MsgParked (licensePlate vehicle) fnum availableSpots],
                  lot\<lparr>floors := floors',
                      vehicleLocations :=
                        (vehicleLocations lot)(licensePlate vehicle \<mapsto> (fnum, availableSpots)),
                      vehiclesMap := (vehiclesMap lot)(licensePlate vehicle \<mapsto> vehicle)\<rparr>)
         | Inr (None, floors') \<Rightarrow>
             Inr (False, [MsgLotFull (licensePlate vehicle)], lot\<lparr>floors := floors'\<rparr>)))"

text \<open>
  \<open>ParkingLot::removeVehicle\<close>. \<open>floors[floorNumber]\<close> converts the \<open>int\<close> to \<open>size_t\<close>, so
  a negative or too large floor number is an out-of-bounds access. The last \<open>return false\<close>
  of the source prints nothing.
\<close>

definition ParkingLot_removeVehicle ::
  "ParkingLot \<Rightarrow> string \<Rightarrow> error + (bool \<times> message list \<times> ParkingLot)" where
  "ParkingLot_removeVehicle lot plate =
     (case vehicleLocations lot plate of
        None \<Rightarrow> Inr (False, [MsgNotFound plate], lot)
      | Some (fnum, spotNumbers) \<Rightarrow>
          (if fnum < 0 \<or> length (floors lot) \<le> nat fnum then Inl OutOfRange
           else
             (case Floor_removeVehicle (floors lot ! nat fnum) plate of
                (True, fl') \<Rightarrow>
                  Inr (True, [MsgRemoved plate fnum],
                       lot\<lparr>floors := (floors lot)[nat fnum := fl'],
                           vehicleLocations := (vehicleLocations lot)(plate := None),
                           vehiclesMap := (vehiclesMap lot)(plate := None)\<rparr>)
              | (False, fl') \<Rightarrow>
                  Inr (False, [], lot\<lparr>floors := (floors lot)[nat fnum := fl']\<rparr>))))"

definition getAvailableSpotsPerFloor :: "ParkingLot \<Rightarrow> int list \<times> ParkingLot" where
  "getAvailableSpotsPerFloor lot = (map availableSpotsCount (floors lot), lot)"

fun all_floors_full :: "Floor list \<Rightarrow> bool" where
  "all_floors_full [] = True"
| "all_floors_full (fl # rest) =
     (if availableSpotsCount fl > 0 then False else all_floors_full rest)"

definition isFull :: "ParkingLot \<Rightarrow> bool \<times> ParkingLot" where
  "isFull lot = (all_floors_full (floors lot), lot)"

definition findVehicle :: "ParkingLot \<Rightarrow> string \<Rightarrow> message list \<times> ParkingLot" where
  "findVehicle lot plate =
     (case vehicleLocations lot plate of
        Some (fnum, spotNumbers) \<Rightarrow> ([MsgLocation plate fnum spotNumbers], lot)
      | None \<Rightarrow> ([MsgNotFound plate], lot))"

section \<open>Notions used to state the properties\<close>

text \<open>
  A spot of a floor is free at index \<open>j\<close>; a vehicle needing \<open>k\<close> spots fits at \<open>j\<close> when
  the \<open>k\<close> spots from \<open>j\<close> on exist and are free; a spot holds a plate.
\<close>

definition free_at :: "ParkingSpot list \<Rightarrow> nat \<Rightarrow> bool" where
  "free_at spts j \<longleftrightarrow> j < length spts \<and> \<not> isOccupied (spts ! j)"

definition fits :: "ParkingSpot list \<Rightarrow> nat \<Rightarrow> nat \<Rightarrow> bool" where
  "fits spts k j \<longleftrightarrow> (\<forall>i<k. free_at spts (j + i))"

definition holds_plate :: "string \<Rightarrow> ParkingSpot \<Rightarrow> bool" where
  "holds_plate plate spot \<longleftrightarrow> isOccupied spot \<and> parkedVehicle spot = plate"

definition release_if :: "string \<Rightarrow> ParkingSpot \<Rightarrow> ParkingSpot" where
  "release_if plate spot =
     (if holds_plate plate spot then spot\<lparr>parkedVehicle := [], isOccupied := False\<rparr> else spot)"

definition occupy :: "string \<Rightarrow> ParkingSpot \<Rightarrow> ParkingSpot" where
  "occupy plate spot = spot\<lparr>parkedVehicle := plate, isOccupied := True\<rparr>"

text \<open>
  The spot of the lot at floor \<open>f\<close> and index \<open>i\<close>, if there is one; whether that spot is
  occupied by a plate; whether the location map lists that spot for the plate.
\<close>

definition spot_at :: "ParkingLot \<Rightarrow> int \<Rightarrow> int \<Rightarrow> ParkingSpot option" where
  "spot_at lot f i =
     (if 0 \<le> f \<and> nat f < length (floors lot) \<and> 0 \<le> i
         \<and> nat i < length (spots (floors lot ! nat f))
      then Some (spots (floors lot ! nat f) ! nat i) else None)"

definition occupied_by :: "ParkingLot \<Rightarrow> string \<Rightarrow> int \<Rightarrow> int \<Rightarrow> bool" where
  "occupied_by lot plate f i =
     (case spot_at lot f i of None \<Rightarrow> False | Some spot \<Rightarrow> holds_plate plate spot)"

definition listed :: "ParkingLot \<Rightarrow> string \<Rightarrow> int \<Rightarrow> int \<Rightarrow> bool" where
  "listed lot plate f i =
     (case vehicleLocations lot plate of
        None \<Rightarrow> False
      | Some (fnum, spotNumbers) \<Rightarrow> fnum = f \<and> i \<in> set spotNumbers)"

text \<open>
  What the constructors establish and every operation keeps: each spot carries its own
  position, a free spot has an empty plate, the floors are as long as an \<open>int\<close> can count,
  the location map and the spots agree, both maps have the same keys, and no entry has an
  empty list of spots.
\<close>

definition spot_wf :: "int \<Rightarrow> nat \<Rightarrow> ParkingSpot \<Rightarrow> bool" where
  "spot_wf fn i spot \<longleftrightarrow>
     ParkingSpot.floorNumber spot = fn \<and> spotNumber spot = int i
     \<and> (\<not> isOccupied spot \<longrightarrow> parkedVehicle spot = [])"

definition floor_wf :: "nat \<Rightarrow> Floor \<Rightarrow> bool" where
  "floor_wf f fl \<longleftrightarrow>
     Floor.floorNumber fl = int f \<and> length (spots fl) < 2 ^ 31
     \<and> (\<forall>i<length (spots fl). spot_wf (int f) i (spots fl ! i))"

definition floors_wf :: "Floor list \<Rightarrow> bool" where
  "floors_wf fls \<longleftrightarrow> (\<forall>f<length fls. floor_wf f (fls ! f))"

definition lot_inv :: "ParkingLot \<Rightarrow> bool" where
  "lot_inv lot \<longleftrightarrow>
     floors_wf (floors lot)
     \<and> (\<forall>plate f i. occupied_by lot plate f i \<longleftrightarrow> listed lot plate f i)
     \<and> dom (vehicleLocations lot) = dom (vehiclesMap lot)
     \<and> (\<forall>plate f. vehicleLocations lot plate \<noteq> Some (f, []))"

text \<open>
  The states a caller can bring a lot into: built by the constructor from two \<open>int\<close>s,
  then changed by completed calls of the public operations.
\<close>

inductive reachable :: "ParkingLot \<Rightarrow> bool" where
  constructed:
    "int_range numFloors \<Longrightarrow> int_range spotsPerFloor
       \<Longrightarrow> reachable (ParkingLot_new numFloors spotsPerFloor)"
| parked:
    "reachable lot \<Longrightarrow> ParkingLot_parkVehicle lot vehicle = Inr (ok, out, lot')
       \<Longrightarrow> reachable lot'"
| removed:
    "reachable lot \<Longrightarrow> ParkingLot_removeVehicle lot plate = Inr (ok, out, lot')
       \<Longrightarrow> reachable lot'"
| counted:
    "reachable lot \<Longrightarrow> getAvailableSpotsPerFloor lot = (counts, lot') \<Longrightarrow> reachable lot'"
| asked_full:
    "reachable lot \<Longrightarrow> isFull lot = (full, lot') \<Longrightarrow> reachable lot'"
| looked_up:
    "reachable lot \<Longrightarrow> findVehicle lot plate = (out, lot') \<Longrightarrow> reachable lot'"

text \<open>
  The two-spot search written by structural recursion over the spots, as a reference for
  what the indexed loop \<open>find_two\<close> computes on a floor that has spots.
\<close>

fun first_pair :: "ParkingSpot list \<Rightarrow> int list" where
  "first_pair (a # b # rest) =
     (if \<not> isOccupied a \<and> \<not> isOccupied b then [spotNumber a, spotNumber b]
      else first_pair (b # rest))"
| "first_pair [a] = []"
| "first_pair [] = []"

definition first_fit :: "ParkingSpot list \<Rightarrow> nat \<Rightarrow> nat \<Rightarrow> bool" where
  "first_fit spts k j \<longleftrightarrow> fits spts k j \<and> (\<forall>j'<j. \<not> fits spts k j')"

definition required :: "Vehicle \<Rightarrow> nat" where
  "required vehicle = nat (getRequiredSpots vehicle)"

definition occupy_range :: "string \<Rightarrow> nat \<Rightarrow> nat \<Rightarrow> ParkingSpot list \<Rightarrow> ParkingSpot list" where
  "occupy_range plate j k spts =
     map (\<lambda>i. if j \<le> i \<and> i < j + k then occupy plate (spts ! i) else spts ! i)
       [0..<length spts]"

text \<open>How many spots a floor operation released: occupied before, free after.\<close>

definition spots_released :: "Floor \<Rightarrow> Floor \<Rightarrow> nat" where
  "spots_released fl fl' =
     length (filter (\<lambda>(before, after). isOccupied before \<and> \<not> isOccupied after)
       (zip (spots fl) (spots fl')))"

section \<open>Example vehicles and states\<close>

definition car_C1 :: Vehicle where
  "car_C1 = \<lparr>licensePlate = ''C1'', type = Car\<rparr>"

definition car_C2 :: Vehicle where
  "car_C2 = \<lparr>licensePlate = ''C2'', type = Car\<rparr>"

definition truck_T1 :: Vehicle where
  "truck_T1 = \<lparr>licensePlate = ''T1'', type = Truck\<rparr>"

definition truck_T2 :: Vehicle where
  "truck_T2 = \<lparr>licensePlate = ''T2'', type = Truck\<rparr>"

definition car_X :: Vehicle where
  "car_X = \<lparr>licensePlate = ''X'', type = Car\<rparr>"

definition bike_X :: Vehicle where
  "bike_X = \<lparr>licensePlate = ''X'', type = Bike\<rparr>"

text \<open>A lot of one floor and four spots: empty, after parking C1, after parking T1 too.\<close>

definition lot_empty :: ParkingLot where
  "lot_empty =
     \<lparr>vehicleLocations = Map.empty, vehiclesMap = Map.empty,
      floors = [\<lparr>Floor.floorNumber = 0,
                 spots = [ParkingSpot_new 0 0, ParkingSpot_new 0 1,
                          ParkingSpot_new 0 2, ParkingSpot_new 0 3]\<rparr>]\<rparr>"

definition lot_C1 :: ParkingLot where
  "lot_C1 =
     \<lparr>vehicleLocations = [''C1'' \<mapsto> (0, [0])], vehiclesMap = [''C1'' \<mapsto> car_C1],
      floors = [\<lparr>Floor.floorNumber = 0,
                 spots = [occupy ''C1'' (ParkingSpot_new 0 0), ParkingSpot_new 0 1,
                          ParkingSpot_new 0 2, ParkingSpot_new 0 3]\<rparr>]\<rparr>"

definition lot_C1_T1 :: ParkingLot where
  "lot_C1_T1 =
     \<lparr>vehicleLocations = [''C1'' \<mapsto> (0, [0]), ''T1'' \<mapsto> (0, [1, 2])],
      vehiclesMap = [''C1'' \<mapsto> car_C1, ''T1'' \<mapsto> truck_T1],
      floors = [\<lparr>Floor.floorNumber = 0,
                 spots = [occupy ''C1'' (ParkingSpot_new 0 0),
                          occupy ''T1'' (ParkingSpot_new 0 1),
                          occupy ''T1'' (ParkingSpot_new 0 2), ParkingSpot_new 0 3]\<rparr>]\<rparr>"

definition lot_C1_T1_C2 :: ParkingLot where
  "lot_C1_T1_C2 =
     \<lparr>vehicleLocations =
        [''C1'' \<mapsto> (0, [0]), ''T1'' \<mapsto> (0, [1, 2]), ''C2'' \<mapsto> (0, [3])],
      vehiclesMap = [''C1'' \<mapsto> car_C1, ''T1'' \<mapsto> truck_T1, ''C2'' \<mapsto> car_C2],
      floors = [\<lparr>Floor.floorNumber = 0,
                 spots = [occupy ''C1'' (ParkingSpot_new 0 0),
                          occupy ''T1'' (ParkingSpot_new 0 1),
                          occupy ''T1'' (ParkingSpot_new 0 2),
                          occupy ''C2'' (ParkingSpot_new 0 3)]\<rparr>]\<rparr>"

text \<open>A lot of one floor and two spots after parking the car X.\<close>

definition lot_X :: ParkingLot where
  "lot_X =
     \<lparr>vehicleLocations = [''X'' \<mapsto> (0, [0])], vehiclesMap = [''X'' \<mapsto> car_X],
      floors = [\<lparr>Floor.floorNumber = 0,
                 spots = [occupy ''X'' (ParkingSpot_new 0 0), ParkingSpot_new 0 1]\<rparr>]\<rparr>"

text \<open>A floor of two spots holding the truck T1.\<close>

definition floor_T1 :: Floor where
  "floor_T1 =
     \<lparr>Floor.floorNumber = 0,
      spots = [occupy ''T1'' (ParkingSpot_new 0 0), occupy ''T1'' (ParkingSpot_new 0 1)]\<rparr>"

text \<open>
  A state no operation produces, built by hand: the location map lists C1 on floor 0,
  yet the only spot of that floor is free.
\<close>

definition lot_stale :: ParkingLot where
  "lot_stale =
     \<lparr>vehicleLocations = [''C1'' \<mapsto> (0, [0])], vehiclesMap = [''C1'' \<mapsto> car_C1],
      floors = [\<lparr>Floor.floorNumber = 0, spots = [ParkingSpot_new 0 0]\<rparr>]\<rparr>"

section \<open>The machine arithmetic on a floor that has spots\<close>

lemma size_minus_one_pos: "0 < n \<Longrightarrow> n < 2 ^ 64 \<Longrightarrow> size_minus_one n = n - 1"
  by (cases n) (simp_all add: size_minus_one_def)

lemma size_minus_one_zero: "size_minus_one 0 = 2 ^ 64 - 1"
  by (simp add: size_minus_one_def)

lemma size_succ_small: "i < 2 ^ 64 - 1 \<Longrightarrow> size_succ i = Suc i"
  by (simp add: size_succ_def)

lemma int_of_size_small: "n < 2 ^ 31 \<Longrightarrow> int_of_size n = int n"
  by (simp add: int_of_size_def Let_def)

lemma first_pair_short: "length xs \<le> 1 \<Longrightarrow> first_pair xs = []"
  by (cases xs rule: first_pair.cases) simp_all

lemma find_two_first_pair:
  assumes "spts \<noteq> []" and "length spts < 2 ^ 64" 
  shows "find_two spts i = Inr (first_pair (drop i spts))"
  using assms
proof (induction spts i rule: find_two.induct)
  case (1 spts i)
  from "1.prems" have bound: "size_minus_one (length spts) = length spts - 1"
    by (simp add: size_minus_one_pos)
  show ?case
  proof (cases "i < length spts - 1")
    case True
    then have succ: "size_succ i = Suc i"
      using "1.prems" by (simp add: size_succ_small)
    from True have d: "drop i spts = spts ! i # spts ! Suc i # drop (Suc (Suc i)) spts"
      by (simp add: Cons_nth_drop_Suc)
    from True have d': "drop (Suc i) spts = spts ! Suc i # drop (Suc (Suc i)) spts"
      by (simp add: Cons_nth_drop_Suc)
    have rec: "find_two spts (Suc i) = Inr (first_pair (drop (Suc i) spts))"
      if "isOccupied (spts ! i) \<or> isOccupied (spts ! Suc i)"
    proof (cases "isOccupied (spts ! i)")
      case occ: True
      with "1.IH"(2) "1.prems" True bound succ show ?thesis by simp
    next
      case free: False
      with that have "isOccupied (spts ! Suc i)" by simp
      with free "1.IH"(1) "1.prems" True bound succ show ?thesis by simp
    qed
    show ?thesis
      using True bound succ d d' rec
      by (subst find_two.simps) auto
  next
    case False
    then have "length (drop i spts) \<le> 1" by simp
    then have "first_pair (drop i spts) = []" by (rule first_pair_short)
    with False bound show ?thesis
      by (subst find_two.simps) simp
  qed
qed

lemma find_two_empty: "find_two [] 0 = Inl OutOfRange"
  by (subst find_two.simps) (simp add: size_minus_one_zero)

lemma free_at_Cons_0: "free_at (x # xs) 0 \<longleftrightarrow> \<not> isOccupied x"
  by (simp add: free_at_def)

lemma free_at_Cons_Suc: "free_at (x # xs) (Suc j) \<longleftrightarrow> free_at xs j"
  by (simp add: free_at_def)

lemma fits_1: "fits spts (Suc 0) j \<longleftrightarrow> free_at spts j"
  by (simp add: fits_def)

lemma fits_2: "fits spts 2 j \<longleftrightarrow> free_at spts j \<and> free_at spts (Suc j)"
  by (auto simp: fits_def less_Suc_eq numeral_2_eq_2)

lemma fits_Cons_Suc: "fits (x # xs) k (Suc j) \<longleftrightarrow> fits xs k j"
  by (simp add: fits_def free_at_Cons_Suc)

lemma find_one_spec:
  "(find_one xs = [] \<and> (\<forall>j. \<not> fits xs 1 j))
   \<or> (\<exists>j. first_fit xs 1 j \<and> find_one xs = [spotNumber (xs ! j)])"
proof (induction xs)
  case Nil
  then show ?case by (simp add: fits_1 free_at_def)
next
  case (Cons x xs)
  show ?case
  proof (cases "isOccupied x")
    case False
    then have "first_fit (x # xs) 1 0 \<and> find_one (x # xs) = [spotNumber ((x # xs) ! 0)]"
      by (simp add: first_fit_def fits_1 free_at_Cons_0)
    then show ?thesis by blast
  next
    case True
    from Cons.IH show ?thesis
    proof
      assume a: "find_one xs = [] \<and> (\<forall>j. \<not> fits xs 1 j)"
      have "\<not> fits (x # xs) 1 j" for j
        using a True by (cases j) (simp_all add: fits_1 free_at_Cons_0 free_at_Cons_Suc)
      with a True show ?thesis by simp
    next
      assume "\<exists>j. first_fit xs 1 j \<and> find_one xs = [spotNumber (xs ! j)]"
      then obtain j where j: "first_fit xs 1 j" "find_one xs = [spotNumber (xs ! j)]"
        by blast
      have "\<not> fits (x # xs) 1 j'" if "j' < Suc j" for j'
        using that j(1) True
        by (cases j') (simp_all add: first_fit_def fits_1 free_at_Cons_0 free_at_Cons_Suc)
      with j True have "first_fit (x # xs) 1 (Suc j)
          \<and> find_one (x # xs) = [spotNumber ((x # xs) ! Suc j)]"
        by (simp add: first_fit_def fits_1 free_at_Cons_Suc)
      then show ?thesis by blast
    qed
  qed
qed

lemma first_pair_spec:
  "(first_pair xs = [] \<and> (\<forall>j. \<not> fits xs 2 j))
   \<or> (\<exists>j. first_fit xs 2 j \<and> first_pair xs = [spotNumber (xs ! j), spotNumber (xs ! Suc j)])"
proof (induction xs rule: first_pair.induct)
  case (1 a b rest)
  show ?case
  proof (cases "\<not> isOccupied a \<and> \<not> isOccupied b")
    case True
    then have "first_fit (a # b # rest) 2 0
        \<and> first_pair (a # b # rest) = [spotNumber ((a # b # rest) ! 0), spotNumber ((a # b # rest) ! Suc 0)]"
      by (simp add: first_fit_def fits_2 free_at_Cons_0 free_at_Cons_Suc)
    then show ?thesis by blast
  next
    case False
    then have nofit0: "\<not> fits (a # b # rest) 2 0"
      by (simp add: fits_2 free_at_Cons_0 free_at_Cons_Suc)
    from False have fp: "first_pair (a # b # rest) = first_pair (b # rest)" by auto
    from "1.IH"[OF False] show ?thesis
    proof
      assume a: "first_pair (b # rest) = [] \<and> (\<forall>j. \<not> fits (b # rest) 2 j)"
      have "\<not> fits (a # b # rest) 2 j" for j
        using a nofit0 by (cases j) (simp_all add: fits_Cons_Suc)
      with a fp show ?thesis by simp
    next
      assume "\<exists>j. first_fit (b # rest) 2 j
          \<and> first_pair (b # rest) = [spotNumber ((b # rest) ! j), spotNumber ((b # rest) ! Suc j)]"
      then obtain j where j: "first_fit (b # rest) 2 j"
        "first_pair (b # rest) = [spotNumber ((b # rest) ! j), spotNumber ((b # rest) ! Suc j)]"
        by blast
      have "\<not> fits (a # b # rest) 2 j'" if "j' < Suc j" for j'
        using that j(1) nofit0
        by (cases j') (simp_all add: first_fit_def fits_Cons_Suc)
      with j fp have "first_fit (a # b # rest) 2 (Suc j)
          \<and> first_pair (a # b # rest)
              = [spotNumber ((a # b # rest) ! Suc j), spotNumber ((a # b # rest) ! Suc (Suc j))]"
        by (simp add: first_fit_def fits_Cons_Suc)
      then show ?thesis by blast
    qed
  qed
next
  case (2 a)
  have "\<not> fits [a] 2 j" for j
    by (simp add: fits_2 free_at_def)
  then show ?case by simp
next
  case 3
  have "\<not> fits [] 2 j" for j
    by (simp add: fits_2 free_at_def)
  then show ?case by simp
qed

section \<open>Releasing and committing on one floor\<close>

lemma release_spots_eq:
  "release_spots plate spts removed =
     (removed \<or> (\<exists>s\<in>set spts. holds_plate plate s), map (release_if plate) spts)"
  by (induction spts arbitrary: removed)
     (auto simp: holds_plate_def release_if_def ParkingSpot_removeVehicle_def)

lemma Floor_removeVehicle_eq:
  "Floor_removeVehicle fl plate =
     ((\<exists>s\<in>set (spots fl). holds_plate plate s),
      fl\<lparr>spots := map (release_if plate) (spots fl)\<rparr>)"
  by (simp add: Floor_removeVehicle_def release_spots_eq)

lemma map_release_if_id:
  "\<forall>s\<in>set spts. \<not> holds_plate plate s \<Longrightarrow> map (release_if plate) spts = spts"
  by (induction spts) (simp_all add: release_if_def)

lemma released_count:
  "length (filter (\<lambda>(before, after). isOccupied before \<and> \<not> isOccupied after)
       (zip spts (map (release_if plate) spts)))
   = length (filter (holds_plate plate) spts)"
  by (induction spts) (auto simp: release_if_def holds_plate_def)

lemma filter_holds_pos:
  "0 < length (filter (holds_plate plate) spts) \<longleftrightarrow> (\<exists>s\<in>set spts. holds_plate plate s)"
  by (induction spts) auto

lemma spots_available_iff:
  "spots_available spts idxs \<longleftrightarrow>
     (\<forall>idx\<in>set idxs. 0 \<le> idx \<and> idx < int_of_size (length spts)
        \<and> \<not> isOccupied (spts ! nat idx))"
  by (induction idxs) auto

lemma park_floors_none:
  "park_floors v fls = Inr (None, fls') \<Longrightarrow> fls' = fls"
proof (induction fls arbitrary: fls')
  case Nil
  then show ?case by simp
next
  case (Cons fl rest)
  then show ?case
    by (auto simp: Floor_parkVehicle_def
        split: sum.splits if_splits prod.splits bool.splits option.splits)
qed

lemma length_upt_4: "[0..<4] = [0, 1, 2, 3]"
  by (simp add: upt_rec)

lemma findAvailableSpots_truck:
  "type v = Truck \<Longrightarrow> spots fl \<noteq> [] \<Longrightarrow> length (spots fl) < 2 ^ 64
     \<Longrightarrow> findAvailableSpots fl v = Inr (first_pair (spots fl))"
  by (simp add: findAvailableSpots_def getRequiredSpots_def find_two_first_pair)

lemma findAvailableSpots_single:
  "type v \<noteq> Truck \<Longrightarrow> findAvailableSpots fl v = Inr (find_one (spots fl))"
  by (simp add: findAvailableSpots_def getRequiredSpots_def)

lemmas example_defs =
  car_C1_def car_C2_def truck_T1_def truck_T2_def car_X_def bike_X_def
  lot_empty_def lot_C1_def lot_C1_T1_def lot_C1_T1_C2_def lot_X_def floor_T1_def
  lot_stale_def ParkingSpot_new_def occupy_def

lemmas park_defs =
  ParkingLot_parkVehicle_def findAvailableSpots_truck findAvailableSpots_single
  Floor_parkVehicle_def int_of_size_def assignVehicle_def

section \<open>What a floor proposes and commits\<close>

lemma required_eq: "required v = (if type v = Truck then 2 else 1)"
  by (simp add: required_def getRequiredSpots_def)

lemma upt_two: "[j..<j + 2] = [j, Suc j]"
  by (simp add: upt_rec)

lemma fits_in_range: "fits spts k j \<Longrightarrow> i < k \<Longrightarrow> j + i < length spts"
  by (simp add: fits_def free_at_def)

lemma fits_free: "fits spts k j \<Longrightarrow> i < k \<Longrightarrow> \<not> isOccupied (spts ! (j + i))"
  by (simp add: fits_def free_at_def)

lemma findAvailableSpots_spec:
  assumes len: "length (spots fl) < 2 ^ 64"
    and res: "findAvailableSpots fl v = Inr r"
  shows "(r = [] \<and> (\<forall>j. \<not> fits (spots fl) (required v) j))
     \<or> (\<exists>j. first_fit (spots fl) (required v) j
            \<and> r = map (\<lambda>i. spotNumber (spots fl ! i)) [j..<j + required v])"
proof (cases "type v = Truck")
  case True
  then have k: "required v = 2" by (simp add: required_eq)
  have nonempty: "spots fl \<noteq> []"
  proof
    assume "spots fl = []"
    with True res show False
      by (simp add: findAvailableSpots_def getRequiredSpots_def find_two_empty)
  qed
  with True len res have r: "r = first_pair (spots fl)"
    by (simp add: findAvailableSpots_truck)
  from first_pair_spec [of "spots fl"] show ?thesis
    by (simp add: k r upt_two)
next
  case False
  then have k: "required v = 1" by (simp add: required_eq)
  from False res have r: "r = find_one (spots fl)"
    by (simp add: findAvailableSpots_single)
  from find_one_spec [of "spots fl"] show ?thesis
    by (simp add: k r)
qed

lemma length_occupy_range [simp]: "length (occupy_range plate j k spts) = length spts"
  by (simp add: occupy_range_def)

lemma nth_occupy_range:
  "i < length spts \<Longrightarrow> occupy_range plate j k spts ! i
     = (if j \<le> i \<and> i < j + k then occupy plate (spts ! i) else spts ! i)"
  by (simp add: occupy_range_def)

lemma assign_one:
  assumes "j < length spts" and "\<not> isOccupied (spts ! j)"
  shows "assign_spots plate spts [int j] = occupy_range plate j 1 spts"
proof (rule nth_equalityI)
  show "length (assign_spots plate spts [int j]) = length (occupy_range plate j 1 spts)"
    by simp
next
  fix i assume "i < length (assign_spots plate spts [int j])"
  then have i: "i < length spts" by simp
  with assms show "assign_spots plate spts [int j] ! i = occupy_range plate j 1 spts ! i"
    by (auto simp: nth_occupy_range nth_list_update assignVehicle_def occupy_def)
qed

lemma assign_two:
  assumes "Suc j < length spts" and "\<not> isOccupied (spts ! j)" and "\<not> isOccupied (spts ! Suc j)"
  shows "assign_spots plate spts [int j, int (Suc j)] = occupy_range plate j 2 spts"
proof (rule nth_equalityI)
  show "length (assign_spots plate spts [int j, int (Suc j)])
      = length (occupy_range plate j 2 spts)"
    by simp
next
  fix i assume "i < length (assign_spots plate spts [int j, int (Suc j)])"
  then have i: "i < length spts" by simp
  have upd: "assign_spots plate spts [int j, int (Suc j)]
      = spts[j := occupy plate (spts ! j), Suc j := occupy plate (spts ! Suc j)]"
    using assms by (simp add: assignVehicle_def occupy_def nat_add_distrib del: of_nat_Suc)
  from i assms(1) show "assign_spots plate spts [int j, int (Suc j)] ! i
      = occupy_range plate j 2 spts ! i"
    unfolding upd by (auto simp: nth_occupy_range nth_list_update)
qed

lemma commit_spec:
  assumes len: "length (spots fl) < 2 ^ 31"
    and fit: "fits (spots fl) (required v) j"
  shows "Floor_parkVehicle fl v (map int [j..<j + required v])
     = (True, fl\<lparr>spots := occupy_range (licensePlate v) j (required v) (spots fl)\<rparr>)"
proof (cases "type v = Truck")
  case True
  then have k: "required v = 2" by (simp add: required_eq)
  from fit have range: "Suc j < length (spots fl)"
    and free: "\<not> isOccupied (spots fl ! j)" "\<not> isOccupied (spots fl ! Suc j)"
    by (simp_all add: k fits_2 free_at_def)
  from len range free have "spots_available (spots fl) [int j, int (Suc j)]"
    by (simp add: int_of_size_small del: of_nat_Suc)
  with range free show ?thesis
    by (simp add: Floor_parkVehicle_def k upt_two assign_two del: of_nat_Suc assign_spots.simps spots_available.simps)
next
  case False
  then have k: "required v = 1" by (simp add: required_eq)
  from fit have range: "j < length (spots fl)" and free: "\<not> isOccupied (spots fl ! j)"
    by (simp_all add: k fits_1 free_at_def)
  from len range free have "spots_available (spots fl) [int j]"
    by (simp add: int_of_size_small)
  with range free show ?thesis
    by (simp add: Floor_parkVehicle_def k assign_one del: assign_spots.simps spots_available.simps)
qed

lemma proposal_numbers:
  assumes wf: "floor_wf f fl" and fit: "fits (spots fl) k j"
  shows "map (\<lambda>i. spotNumber (spots fl ! i)) [j..<j + k] = map int [j..<j + k]"
proof (rule map_cong [OF refl])
  fix i assume "i \<in> set [j..<j + k]"
  then have "j \<le> i" "i - j < k" by auto
  with fits_in_range [OF fit, of "i - j"] have "i < length (spots fl)" by simp
  with wf show "spotNumber (spots fl ! i) = int i"
    by (simp add: floor_wf_def spot_wf_def)
qed

lemma park_floors_spec:
  assumes "\<forall>f<length fls. floor_wf (off + f) (fls ! f)"
    and "park_floors v fls = Inr (res, fls')"
  shows "(res = None \<and> fls' = fls
          \<and> (\<forall>f<length fls. \<forall>j. \<not> fits (spots (fls ! f)) (required v) j))
     \<or> (\<exists>f j. f < length fls \<and> first_fit (spots (fls ! f)) (required v) j
          \<and> (\<forall>f'<f. \<forall>j'. \<not> fits (spots (fls ! f')) (required v) j')
          \<and> res = Some (int (off + f), map int [j..<j + required v])
          \<and> fls' = fls[f := (fls ! f)\<lparr>spots :=
                occupy_range (licensePlate v) j (required v) (spots (fls ! f))\<rparr>])"
  using assms
proof (induction fls arbitrary: off res fls')
  case Nil
  then show ?case by simp
next
  case (Cons fl rest)
  from Cons.prems(1) have wf: "floor_wf off fl"
    and wf_rest: "\<forall>f<length rest. floor_wf (Suc off + f) (rest ! f)"
    by (auto simp: All_less_Suc2)
  from wf have len31: "length (spots fl) < 2 ^ 31" by (simp add: floor_wf_def)
  then have len64: "length (spots fl) < 2 ^ 64" by simp
  from Cons.prems(2) obtain r where r: "findAvailableSpots fl v = Inr r"
    by (cases "findAvailableSpots fl v") simp_all
  from findAvailableSpots_spec [OF len64 r] show ?case
  proof
    assume none: "r = [] \<and> (\<forall>j. \<not> fits (spots fl) (required v) j)"
    with Cons.prems(2) r obtain rest' where
      rec: "park_floors v rest = Inr (res, rest')" and fls': "fls' = fl # rest'"
      by (auto split: sum.splits prod.splits)
    from Cons.IH [OF wf_rest rec] show ?thesis
    proof
      assume a: "res = None \<and> rest' = rest
          \<and> (\<forall>f<length rest. \<forall>j. \<not> fits (spots (rest ! f)) (required v) j)"
      with none fls' have "res = None \<and> fls' = fl # rest
          \<and> (\<forall>f<length (fl # rest). \<forall>j. \<not> fits (spots ((fl # rest) ! f)) (required v) j)"
        by (simp add: All_less_Suc2)
      then show ?thesis by blast
    next
      assume "\<exists>f j. f < length rest \<and> first_fit (spots (rest ! f)) (required v) j
          \<and> (\<forall>f'<f. \<forall>j'. \<not> fits (spots (rest ! f')) (required v) j')
          \<and> res = Some (int (Suc off + f), map int [j..<j + required v])
          \<and> rest' = rest[f := (rest ! f)\<lparr>spots :=
                occupy_range (licensePlate v) j (required v) (spots (rest ! f))\<rparr>]"
      then obtain f j where fj: "f < length rest" "first_fit (spots (rest ! f)) (required v) j"
          "\<forall>f'<f. \<forall>j'. \<not> fits (spots (rest ! f')) (required v) j'"
          "res = Some (int (Suc off + f), map int [j..<j + required v])"
          "rest' = rest[f := (rest ! f)\<lparr>spots :=
                occupy_range (licensePlate v) j (required v) (spots (rest ! f))\<rparr>]"
        by blast
      from fj(3) none
      have before: "\<forall>f'<Suc f. \<forall>j'. \<not> fits (spots ((fl # rest) ! f')) (required v) j'"
        by (simp add: All_less_Suc2)
      from fj fls' before have "Suc f < length (fl # rest)
          \<and> first_fit (spots ((fl # rest) ! Suc f)) (required v) j
          \<and> (\<forall>f'<Suc f. \<forall>j'. \<not> fits (spots ((fl # rest) ! f')) (required v) j')
          \<and> res = Some (int (off + Suc f), map int [j..<j + required v])
          \<and> fls' = (fl # rest)[Suc f := ((fl # rest) ! Suc f)\<lparr>spots :=
                occupy_range (licensePlate v) j (required v) (spots ((fl # rest) ! Suc f))\<rparr>]"
        by simp
      then show ?thesis by blast
    qed
  next
    assume "\<exists>j. first_fit (spots fl) (required v) j
            \<and> r = map (\<lambda>i. spotNumber (spots fl ! i)) [j..<j + required v]"
    then obtain j where ff: "first_fit (spots fl) (required v) j"
      and r': "r = map (\<lambda>i. spotNumber (spots fl ! i)) [j..<j + required v]"
      by blast
    from ff have fit: "fits (spots fl) (required v) j" by (simp add: first_fit_def)
    from r' proposal_numbers [OF wf fit] have rj: "r = map int [j..<j + required v]" by simp
    have ne: "r \<noteq> []" by (simp add: rj required_eq)
    from commit_spec [OF len31 fit]
    have commit: "Floor_parkVehicle fl v r
        = (True, fl\<lparr>spots := occupy_range (licensePlate v) j (required v) (spots fl)\<rparr>)"
      by (simp add: rj)
    from wf have num: "Floor.floorNumber fl = int off" by (simp add: floor_wf_def)
    from Cons.prems(2) r ne commit num
    have "res = Some (int off, r)"
      and "fls' = fl\<lparr>spots := occupy_range (licensePlate v) j (required v) (spots fl)\<rparr> # rest"
      by simp_all
    with ff rj have "0 < length (fl # rest)
          \<and> first_fit (spots ((fl # rest) ! 0)) (required v) j
          \<and> (\<forall>f'<0. \<forall>j'. \<not> fits (spots ((fl # rest) ! f')) (required v) j')
          \<and> res = Some (int (off + 0), map int [j..<j + required v])
          \<and> fls' = (fl # rest)[0 := ((fl # rest) ! 0)\<lparr>spots :=
                occupy_range (licensePlate v) j (required v) (spots ((fl # rest) ! 0))\<rparr>]"
      by simp
    then show ?thesis by blast
  qed
qed

lemma findAvailableSpots_returns:
  assumes "type v = Truck \<longrightarrow> spots fl \<noteq> []" and "length (spots fl) < 2 ^ 64"
  shows "\<exists>r. findAvailableSpots fl v = Inr r"
  using assms
  by (cases "type v = Truck") (simp_all add: findAvailableSpots_truck findAvailableSpots_single)

section \<open>The search on a floor without spots\<close>

text \<open>
  C4. \<open>findAvailableSpots\<close> is meant to return a list, empty when nothing fits, on
  every floor and without reading outside the spots; \<open>findAvailableSpots_returns\<close> shows
  that it does so for one required spot and on every floor that has a spot. On a floor
  without spots the code does not: the two-spot search computes \<open>spots.size() - 1\<close> in
  \<open>size_t\<close>, which wraps to \<open>2 ^ 64 - 1\<close>, enters the loop and reads \<open>spots[0]\<close>, an
  access out of range. Parking a truck in a lot built with zero spots per floor reaches it.
\<close>

theorem truck_search_on_empty_floor_out_of_range:
  "findAvailableSpots (Floor_new 0 0) truck_T1 = Inl OutOfRange
   \<and> ParkingLot_parkVehicle (ParkingLot_new 1 0) truck_T1 = Inl OutOfRange"
  by (simp add: ParkingLot_parkVehicle_def ParkingLot_new_def findAvailableSpots_def
      getRequiredSpots_def Floor_new_def truck_T1_def find_two_empty)

section \<open>Queries\<close>

text \<open>
  C10. The queries \<open>getAvailableSpotsPerFloor\<close>, \<open>isFull\<close> and \<open>findVehicle\<close> leave the
  lot as it was: the spots, the location map and the vehicle map are unchanged.
\<close>

theorem queries_leave_lot_unchanged:
  "snd (getAvailableSpotsPerFloor lot) = lot \<and> snd (isFull lot) = lot
   \<and> snd (findVehicle lot plate) = lot"
  by (simp add: getAvailableSpotsPerFloor_def isFull_def findVehicle_def
      split: option.splits prod.splits)

section \<open>A park that fails\<close>

text \<open>
  C3. When \<open>parkVehicle\<close> returns false, whether it printed that the vehicle is already
  parked or that the lot is full, the lot afterwards is the lot before: no spot changed
  and no entry was added to either map. The commit step of a floor succeeds exactly when
  every index is in range and free, and when it fails the floor is unchanged.
\<close>

theorem park_failure_changes_nothing:
  "(ParkingLot_parkVehicle lot v = Inr (False, out, lot') \<longrightarrow>
      lot' = lot \<and> (out = [MsgAlreadyParked (licensePlate v)] \<or> out = [MsgLotFull (licensePlate v)]))
   \<and> (length (spots fl) < 2 ^ 31 \<longrightarrow>
        (fst (Floor_parkVehicle fl v idxs) \<longleftrightarrow>
          (\<forall>idx\<in>set idxs. 0 \<le> idx \<and> nat idx < length (spots fl)
              \<and> \<not> isOccupied (spots fl ! nat idx))))
   \<and> (\<not> fst (Floor_parkVehicle fl v idxs) \<longrightarrow> snd (Floor_parkVehicle fl v idxs) = fl)"
proof (intro conjI impI)
  assume a: "ParkingLot_parkVehicle lot v = Inr (False, out, lot')"
  then show "lot' = lot"
    by (auto simp: ParkingLot_parkVehicle_def dest: park_floors_none
        split: if_splits sum.splits prod.splits option.splits)
  from a show "out = [MsgAlreadyParked (licensePlate v)] \<or> out = [MsgLotFull (licensePlate v)]"
    by (auto simp: ParkingLot_parkVehicle_def
        split: if_splits sum.splits prod.splits option.splits)
next
  assume "length (spots fl) < 2 ^ 31"
  then have cast: "int_of_size (length (spots fl)) = int (length (spots fl))"
    by (rule int_of_size_small)
  have "(0 \<le> idx \<and> idx < int (length (spots fl)) \<and> R)
      \<longleftrightarrow> (0 \<le> idx \<and> nat idx < length (spots fl) \<and> R)" for idx R
    by (cases "0 \<le> idx") (simp_all add: nat_less_iff)
  with cast show "fst (Floor_parkVehicle fl v idxs) \<longleftrightarrow>
          (\<forall>idx\<in>set idxs. 0 \<le> idx \<and> nat idx < length (spots fl)
              \<and> \<not> isOccupied (spots fl ! nat idx))"
    by (simp add: Floor_parkVehicle_def spots_available_iff)
next
  assume "\<not> fst (Floor_parkVehicle fl v idxs)"
  then show "snd (Floor_parkVehicle fl v idxs) = fl"
    by (simp add: Floor_parkVehicle_def split: if_splits)
qed

theorem park_failure_changes_nothing_witness:
  "ParkingLot_parkVehicle lot_C1_T1_C2 truck_T2 = Inr (False, [MsgLotFull ''T2''], lot_C1_T1_C2)
   \<and> length (spots floor_T1) < 2 ^ 31
   \<and> fst (Floor_parkVehicle floor_T1 truck_T2 [0, 1]) = False
   \<and> snd (Floor_parkVehicle floor_T1 truck_T2 [0, 1]) = floor_T1"
proof -
  have full: "ParkingLot_parkVehicle lot_C1_T1_C2 truck_T2
      = Inr (False, [MsgLotFull ''T2''], lot_C1_T1_C2)"
    by (simp add: park_defs example_defs)
  have len: "length (spots floor_T1) < 2 ^ 31"
    by (simp add: example_defs)
  have occupied: "\<not> (\<forall>idx\<in>set [0, 1]. 0 \<le> idx \<and> nat idx < length (spots floor_T1)
      \<and> \<not> isOccupied (spots floor_T1 ! nat idx))"
    by (simp add: example_defs)
  from park_failure_changes_nothing
    [of lot_C1_T1_C2 truck_T2 "[MsgLotFull ''T2'']" lot_C1_T1_C2 floor_T1 "[0, 1]"]
    full len occupied
  show ?thesis by simp
qed

section \<open>Releasing a plate on a floor\<close>

text \<open>
  C7 (as the code has it). \<open>Floor::removeVehicle\<close> frees every spot of the floor that is
  occupied by the plate and changes no other spot. It returns a \<open>bool\<close>, not a count: true
  exactly when it released at least one spot, false exactly when the plate occupied no
  spot of the floor.
\<close>

theorem floor_remove_releases_plate:
  assumes "Floor_removeVehicle fl plate = (ok, fl')"
  shows "Floor.floorNumber fl' = Floor.floorNumber fl
    \<and> length (spots fl') = length (spots fl)
    \<and> (\<forall>i<length (spots fl). spots fl' ! i =
          (if isOccupied (spots fl ! i) \<and> parkedVehicle (spots fl ! i) = plate
           then (spots fl ! i)\<lparr>parkedVehicle := [], isOccupied := False\<rparr>
           else spots fl ! i))
    \<and> spots_released fl fl' = length (filter (holds_plate plate) (spots fl))
    \<and> (ok \<longleftrightarrow> 0 < spots_released fl fl')"
proof -
  from assms have ok: "ok \<longleftrightarrow> (\<exists>s\<in>set (spots fl). holds_plate plate s)"
    and fl': "fl' = fl\<lparr>spots := map (release_if plate) (spots fl)\<rparr>"
    by (simp_all add: Floor_removeVehicle_eq)
  have rel: "spots_released fl fl' = length (filter (holds_plate plate) (spots fl))"
    by (simp add: spots_released_def fl' released_count)
  have okr: "ok \<longleftrightarrow> 0 < spots_released fl fl'"
    by (simp only: rel ok filter_holds_pos)
  have pointwise: "\<forall>i<length (spots fl). spots fl' ! i =
          (if isOccupied (spots fl ! i) \<and> parkedVehicle (spots fl ! i) = plate
           then (spots fl ! i)\<lparr>parkedVehicle := [], isOccupied := False\<rparr>
           else spots fl ! i)"
    by (simp add: fl' release_if_def holds_plate_def)
  have frame: "Floor.floorNumber fl' = Floor.floorNumber fl"
    "length (spots fl') = length (spots fl)"
    by (simp_all add: fl')
  from frame pointwise rel okr show ?thesis by blast
qed

theorem floor_remove_releases_plate_witness:
  "Floor_removeVehicle floor_T1 ''T1''
     = (True, \<lparr>Floor.floorNumber = 0, spots = [ParkingSpot_new 0 0, ParkingSpot_new 0 1]\<rparr>)
   \<and> spots_released floor_T1
        \<lparr>Floor.floorNumber = 0, spots = [ParkingSpot_new 0 0, ParkingSpot_new 0 1]\<rparr>
      = length (filter (holds_plate ''T1'') (spots floor_T1))"
proof -
  have run: "Floor_removeVehicle floor_T1 ''T1''
     = (True, \<lparr>Floor.floorNumber = 0, spots = [ParkingSpot_new 0 0, ParkingSpot_new 0 1]\<rparr>)"
    by (simp add: Floor_removeVehicle_eq example_defs holds_plate_def release_if_def)
  from floor_remove_releases_plate [OF run] run show ?thesis by simp
qed

text \<open>
  The claim as stated, that the number of released spots is returned, fails for a truck:
  two spots are released and the value returned is \<open>true\<close>, which as a number is 1.
\<close>

theorem floor_remove_returns_flag_not_count:
  "fst (Floor_removeVehicle floor_T1 ''T1'') = True
   \<and> spots_released floor_T1 (snd (Floor_removeVehicle floor_T1 ''T1'')) = 2
   \<and> (of_bool (fst (Floor_removeVehicle floor_T1 ''T1'')) :: nat)
       \<noteq> spots_released floor_T1 (snd (Floor_removeVehicle floor_T1 ''T1''))"
  by (simp add: Floor_removeVehicle_eq floor_T1_def holds_plate_def occupy_def
      ParkingSpot_new_def spots_released_def release_if_def)

section \<open>Removing a plate whose floor holds none of its spots\<close>

text \<open>
  C5 (as the code has it). When the plate is in the location map but the recorded floor
  releases nothing, \<open>ParkingLot::removeVehicle\<close> returns false, prints nothing and leaves
  the lot unchanged. The value returned is the one returned for a plate that is not
  parked; only the missing line of output tells the two apart.
\<close>

theorem remove_stale_entry_is_silent:
  assumes "vehicleLocations lot plate = Some (fnum, spotNumbers)"
    and "0 \<le> fnum" and "nat fnum < length (floors lot)"
    and "\<not> fst (Floor_removeVehicle (floors lot ! nat fnum) plate)"
  shows "ParkingLot_removeVehicle lot plate = Inr (False, [], lot)"
proof -
  from assms(4) have "\<forall>s\<in>set (spots (floors lot ! nat fnum)). \<not> holds_plate plate s"
    by (simp add: Floor_removeVehicle_eq)
  then have "Floor_removeVehicle (floors lot ! nat fnum) plate = (False, floors lot ! nat fnum)"
    by (simp add: Floor_removeVehicle_eq map_release_if_id)
  with assms(1-3) show ?thesis
    by (simp add: ParkingLot_removeVehicle_def)
qed

theorem remove_stale_entry_is_silent_witness:
  "vehicleLocations lot_stale ''C1'' = Some (0, [0])
  \<and> fst (Floor_removeVehicle (floors lot_stale ! 0) ''C1'') = False
  \<and> ParkingLot_removeVehicle lot_stale ''C1'' = Inr (False, [], lot_stale)"
proof -
  have 1: "vehicleLocations lot_stale ''C1'' = Some (0, [0])"
    by (simp add: lot_stale_def)
  have 2: "nat 0 < length (floors lot_stale)"
    by (simp add: lot_stale_def)
  have 3: "\<not> fst (Floor_removeVehicle (floors lot_stale ! nat 0) ''C1'')"
    by (simp add: lot_stale_def Floor_removeVehicle_eq holds_plate_def ParkingSpot_new_def)
  from remove_stale_entry_is_silent [OF 1 _ 2 3] 1 3 show ?thesis by simp
qed

text \<open>
  No error of its own is surfaced: on the hand-built state \<open>lot_stale\<close> the call returns
  false with no output, and a call for a plate that is not parked returns false as well.
\<close>

theorem remove_stale_entry_no_distinct_error:
  "ParkingLot_removeVehicle lot_stale ''C1'' = Inr (False, [], lot_stale)
  \<and> ParkingLot_removeVehicle lot_stale ''Z'' = Inr (False, [MsgNotFound ''Z''], lot_stale)"
  by (simp add: ParkingLot_removeVehicle_def lot_stale_def Floor_removeVehicle_eq
      holds_plate_def ParkingSpot_new_def release_if_def)

section \<open>A plate that is already parked\<close>

text \<open>
  C6. \<open>parkVehicle\<close> answers that the vehicle is already parked exactly when the plate is
  a key of the location map; it then returns false and the lot, hence the free count of
  every floor, is unchanged. In a lot of one floor and two spots, after the car X is
  parked at spot 0, parking a bike with plate X is refused and one spot is still free.
\<close>

theorem park_duplicate_plate:
  "(vehicleLocations lot (licensePlate v) \<noteq> None \<longrightarrow>
      ParkingLot_parkVehicle lot v = Inr (False, [MsgAlreadyParked (licensePlate v)], lot))
   \<and> (ParkingLot_parkVehicle lot v = Inr (ok, [MsgAlreadyParked (licensePlate v)], lot') \<longrightarrow>
      vehicleLocations lot (licensePlate v) \<noteq> None \<and> \<not> ok
      \<and> fst (getAvailableSpotsPerFloor lot') = fst (getAvailableSpotsPerFloor lot))"
  by (auto simp: ParkingLot_parkVehicle_def
      split: if_splits sum.splits prod.splits option.splits)

theorem park_duplicate_plate_witness:
  "ParkingLot_parkVehicle (ParkingLot_new 1 2) car_X = Inr (True, [MsgParked ''X'' 0 [0]], lot_X)
   \<and> vehicleLocations lot_X (licensePlate bike_X) = Some (0, [0])
   \<and> ParkingLot_parkVehicle lot_X bike_X = Inr (False, [MsgAlreadyParked ''X''], lot_X)
   \<and> fst (getAvailableSpotsPerFloor lot_X) = [1]"
proof -
  have first: "ParkingLot_parkVehicle (ParkingLot_new 1 2) car_X
      = Inr (True, [MsgParked ''X'' 0 [0]], lot_X)"
    by (simp add: ParkingLot_new_def Floor_new_def upt_rec park_defs example_defs)
  have key: "vehicleLocations lot_X (licensePlate bike_X) = Some (0, [0])"
    by (simp add: example_defs)
  have count: "fst (getAvailableSpotsPerFloor lot_X) = [1]"
    by (simp add: getAvailableSpotsPerFloor_def availableSpotsCount_def example_defs)
  from park_duplicate_plate [of lot_X bike_X] key
  have "ParkingLot_parkVehicle lot_X bike_X
      = Inr (False, [MsgAlreadyParked (licensePlate bike_X)], lot_X)"
    by simp
  with first key count show ?thesis by (simp add: bike_X_def)
qed

section \<open>What a successful park does to the lot\<close>

lemma park_false_unchanged:
  "ParkingLot_parkVehicle lot v = Inr (False, out, lot') \<Longrightarrow> lot' = lot"
  by (auto simp: ParkingLot_parkVehicle_def dest: park_floors_none
      split: if_splits sum.splits prod.splits option.splits)

lemma park_success:
  assumes wf: "floors_wf (floors lot)"
    and run: "ParkingLot_parkVehicle lot v = Inr (True, out, lot')"
  shows "\<exists>f j. f < length (floors lot)
      \<and> first_fit (spots (floors lot ! f)) (required v) j
      \<and> (\<forall>f'<f. \<forall>j'. \<not> fits (spots (floors lot ! f')) (required v) j')
      \<and> vehicleLocations lot (licensePlate v) = None
      \<and> out = [MsgParked (licensePlate v) (int f) (map int [j..<j + required v])]
      \<and> lot' = lot\<lparr>floors := (floors lot)[f := (floors lot ! f)\<lparr>spots :=
                    occupy_range (licensePlate v) j (required v) (spots (floors lot ! f))\<rparr>],
                  vehicleLocations := (vehicleLocations lot)
                    (licensePlate v \<mapsto> (int f, map int [j..<j + required v])),
                  vehiclesMap := (vehiclesMap lot)(licensePlate v \<mapsto> v)\<rparr>"
proof -
  from run have absent: "vehicleLocations lot (licensePlate v) = None"
    by (cases "vehicleLocations lot (licensePlate v)")
       (auto simp: ParkingLot_parkVehicle_def)
  with run obtain fnum r fls' where
    loop: "park_floors v (floors lot) = Inr (Some (fnum, r), fls')"
    and out: "out = [MsgParked (licensePlate v) fnum r]"
    and lot': "lot' = lot\<lparr>floors := fls',
                  vehicleLocations := (vehicleLocations lot)(licensePlate v \<mapsto> (fnum, r)),
                  vehiclesMap := (vehiclesMap lot)(licensePlate v \<mapsto> v)\<rparr>"
    by (auto simp: ParkingLot_parkVehicle_def split: sum.splits prod.splits option.splits)
  from wf have "\<forall>f<length (floors lot). floor_wf (0 + f) (floors lot ! f)"
    by (simp add: floors_wf_def)
  from park_floors_spec [OF this loop] obtain f j where
    "f < length (floors lot)" "first_fit (spots (floors lot ! f)) (required v) j"
    "\<forall>f'<f. \<forall>j'. \<not> fits (spots (floors lot ! f')) (required v) j'"
    "fnum = int f" "r = map int [j..<j + required v]"
    "fls' = (floors lot)[f := (floors lot ! f)\<lparr>spots :=
        occupy_range (licensePlate v) j (required v) (spots (floors lot ! f))\<rparr>]"
    by auto
  with absent out lot' show ?thesis by blast
qed

section \<open>The spots and the location map agree\<close>

lemma spot_at_update:
  assumes "floors lot' = (floors lot)[f := (floors lot ! f)\<lparr>spots := spts'\<rparr>]"
    and "f < length (floors lot)"
    and "length spts' = length (spots (floors lot ! f))"
  shows "spot_at lot' g i =
     (if g = int f \<and> 0 \<le> i \<and> nat i < length spts' then Some (spts' ! nat i)
      else spot_at lot g i)"
proof (cases "g = int f")
  case True
  with assms show ?thesis by (simp add: spot_at_def)
next
  case False
  show ?thesis
  proof (cases "0 \<le> g \<and> nat g < length (floors lot)")
    case inside: True
    with False have "nat g \<noteq> f" by auto
    then have "floors lot' ! nat g = floors lot ! nat g"
      using assms(1) by simp
    with False assms(1) show ?thesis by (simp add: spot_at_def)
  next
    case outside: False
    with False assms(1) show ?thesis by (auto simp: spot_at_def)
  qed
qed

lemma spot_at_target:
  "f < length (floors lot) \<Longrightarrow> 0 \<le> i \<Longrightarrow> nat i < length (spots (floors lot ! f))
     \<Longrightarrow> spot_at lot (int f) i = Some (spots (floors lot ! f) ! nat i)"
  by (simp add: spot_at_def)

lemma holds_plate_occupy [simp]: "holds_plate plate' (occupy plate s) \<longleftrightarrow> plate' = plate"
  by (auto simp: holds_plate_def occupy_def)

lemma holds_plate_release_if [simp]:
  "holds_plate plate' (release_if plate s) \<longleftrightarrow> plate' \<noteq> plate \<and> holds_plate plate' s"
  by (auto simp: holds_plate_def release_if_def)

lemma mem_int_image: "i \<in> int ` {j..<j + k} \<longleftrightarrow> 0 \<le> i \<and> j \<le> nat i \<and> nat i < j + k"
proof
  assume "i \<in> int ` {j..<j + k}"
  then obtain n where "i = int n" "j \<le> n" "n < j + k" by auto
  then show "0 \<le> i \<and> j \<le> nat i \<and> nat i < j + k" by simp
next
  assume a: "0 \<le> i \<and> j \<le> nat i \<and> nat i < j + k"
  then have "nat i \<in> {j..<j + k}" by simp
  then have "int (nat i) \<in> int ` {j..<j + k}" by (rule imageI)
  with a show "i \<in> int ` {j..<j + k}" by simp
qed

lemma occupied_by_after_park:
  assumes fl: "floors lot' = (floors lot)[f := (floors lot ! f)\<lparr>spots :=
        occupy_range plate j k (spots (floors lot ! f))\<rparr>]"
    and f: "f < length (floors lot)"
    and fit: "fits (spots (floors lot ! f)) k j"
  shows "occupied_by lot' plate' g i \<longleftrightarrow>
     (if g = int f \<and> 0 \<le> i \<and> j \<le> nat i \<and> nat i < j + k then plate' = plate
      else occupied_by lot plate' g i)"
proof -
  let ?spts = "spots (floors lot ! f)"
  have at: "spot_at lot' g i =
     (if g = int f \<and> 0 \<le> i \<and> nat i < length ?spts
      then Some (occupy_range plate j k ?spts ! nat i) else spot_at lot g i)"
    using spot_at_update [OF fl f] by simp
  show ?thesis
  proof (cases "g = int f \<and> 0 \<le> i \<and> nat i < length ?spts")
    case True
    then have "spot_at lot g i = Some (?spts ! nat i)"
      using f by (simp add: spot_at_target)
    with True at show ?thesis
      by (simp add: occupied_by_def nth_occupy_range)
  next
    case False
    have "\<not> (g = int f \<and> 0 \<le> i \<and> j \<le> nat i \<and> nat i < j + k)"
    proof
      assume a: "g = int f \<and> 0 \<le> i \<and> j \<le> nat i \<and> nat i < j + k"
      then have "nat i - j < k" by linarith
      from fits_in_range [OF fit this] a have "nat i < length ?spts" by simp
      with a False show False by simp
    qed
    then have right: "(if g = int f \<and> 0 \<le> i \<and> j \<le> nat i \<and> nat i < j + k then plate' = plate
      else occupied_by lot plate' g i) = occupied_by lot plate' g i"
      by (rule if_not_P)
    from False have "spot_at lot' g i = spot_at lot g i"
      unfolding at by (rule if_not_P)
    then have "occupied_by lot' plate' g i = occupied_by lot plate' g i"
      by (simp add: occupied_by_def)
    with right show ?thesis by simp
  qed
qed

lemma occupied_by_after_release:
  assumes fl: "floors lot' = (floors lot)[f := (floors lot ! f)\<lparr>spots :=
        map (release_if plate) (spots (floors lot ! f))\<rparr>]"
    and f: "f < length (floors lot)"
  shows "occupied_by lot' plate' g i \<longleftrightarrow>
     (if g = int f then plate' \<noteq> plate \<and> occupied_by lot plate' g i
      else occupied_by lot plate' g i)"
proof -
  let ?spts = "spots (floors lot ! f)"
  have at: "spot_at lot' g i =
     (if g = int f \<and> 0 \<le> i \<and> nat i < length ?spts
      then Some (map (release_if plate) ?spts ! nat i) else spot_at lot g i)"
    using spot_at_update [OF fl f] by simp
  show ?thesis
  proof (cases "g = int f \<and> 0 \<le> i \<and> nat i < length ?spts")
    case True
    then have "spot_at lot g i = Some (?spts ! nat i)"
      using f by (simp add: spot_at_target)
    with True at show ?thesis
      by (simp add: occupied_by_def)
  next
    case False
    then have none: "g = int f \<longrightarrow> spot_at lot g i = None"
      using f by (auto simp: spot_at_def)
    from False have "spot_at lot' g i = spot_at lot g i"
      unfolding at by (rule if_not_P)
    then have same: "occupied_by lot' plate' g i = occupied_by lot plate' g i"
      by (simp add: occupied_by_def)
    from none have "g = int f \<longrightarrow> \<not> occupied_by lot plate' g i"
      by (simp add: occupied_by_def)
    with same show ?thesis by auto
  qed
qed

section \<open>The invariant\<close>

lemma listed_after_park:
  assumes "vehicleLocations lot' = (vehicleLocations lot)(plate \<mapsto> (int f, map int [j..<j + k]))"
  shows "listed lot' plate' g i \<longleftrightarrow>
     (if plate' = plate then g = int f \<and> 0 \<le> i \<and> j \<le> nat i \<and> nat i < j + k
      else listed lot plate' g i)"
  using assms by (auto simp: listed_def mem_int_image)

lemma listed_after_remove:
  assumes "vehicleLocations lot' = (vehicleLocations lot)(plate := None)"
  shows "listed lot' plate' g i \<longleftrightarrow> plate' \<noteq> plate \<and> listed lot plate' g i"
  using assms by (simp add: listed_def)

lemma spot_wf_occupy: "spot_wf fn i s \<Longrightarrow> spot_wf fn i (occupy plate s)"
  by (simp add: spot_wf_def occupy_def)

lemma spot_wf_release_if: "spot_wf fn i s \<Longrightarrow> spot_wf fn i (release_if plate s)"
  by (simp add: spot_wf_def release_if_def)

lemma floor_wf_occupy_range:
  "floor_wf f fl \<Longrightarrow> floor_wf f (fl\<lparr>spots := occupy_range plate j k (spots fl)\<rparr>)"
  by (simp add: floor_wf_def nth_occupy_range spot_wf_occupy)

lemma floor_wf_release:
  "floor_wf f fl \<Longrightarrow> floor_wf f (fl\<lparr>spots := map (release_if plate) (spots fl)\<rparr>)"
  by (simp add: floor_wf_def spot_wf_release_if)

lemma floors_wf_update:
  "floors_wf fls \<Longrightarrow> f < length fls \<Longrightarrow> floor_wf f fl' \<Longrightarrow> floors_wf (fls[f := fl'])"
  by (simp add: floors_wf_def nth_list_update)

lemma length_floors_new: "length (floors (ParkingLot_new numFloors spotsPerFloor)) = nat numFloors"
  by (simp add: ParkingLot_new_def)

lemma floors_new_nth:
  "f < nat numFloors
     \<Longrightarrow> floors (ParkingLot_new numFloors spotsPerFloor) ! f = Floor_new (int f) spotsPerFloor"
  by (simp add: ParkingLot_new_def)

lemma length_spots_new: "length (spots (Floor_new fn numSpots)) = nat numSpots"
  by (simp add: Floor_new_def)

lemma spots_new_nth:
  "i < nat numSpots \<Longrightarrow> spots (Floor_new fn numSpots) ! i = ParkingSpot_new fn (int i)"
  by (simp add: Floor_new_def)

lemma lot_inv_new:
  assumes "int_range spotsPerFloor"
  shows "lot_inv (ParkingLot_new numFloors spotsPerFloor)"
proof -
  have len: "nat spotsPerFloor < 2 ^ 31"
  proof (cases "0 \<le> spotsPerFloor")
    case True
    with assms show ?thesis by (simp add: int_range_def nat_less_iff)
  next
    case False
    then show ?thesis by simp
  qed
  have wf: "floors_wf (floors (ParkingLot_new numFloors spotsPerFloor))"
    using len
    by (simp add: floors_wf_def floor_wf_def spot_wf_def length_floors_new floors_new_nth
        length_spots_new spots_new_nth)
       (simp add: Floor_new_def ParkingSpot_new_def)
  have free: "\<not> occupied_by (ParkingLot_new numFloors spotsPerFloor) plate g i" for plate g i
  proof
    let ?lot = "ParkingLot_new numFloors spotsPerFloor"
    assume "occupied_by ?lot plate g i"
    then obtain s where at: "spot_at ?lot g i = Some s" and occ: "isOccupied s"
      by (auto simp: occupied_by_def holds_plate_def split: option.splits)
    from at have g: "nat g < nat numFloors"
      and i: "nat i < length (spots (floors ?lot ! nat g))"
      and s: "s = spots (floors ?lot ! nat g) ! nat i"
      by (auto simp: spot_at_def length_floors_new split: if_splits)
    from g have fl: "floors ?lot ! nat g = Floor_new (int (nat g)) spotsPerFloor"
      by (rule floors_new_nth)
    from i have "nat i < nat spotsPerFloor"
      by (simp add: fl length_spots_new)
    then have "s = ParkingSpot_new (int (nat g)) (int (nat i))"
      unfolding s fl by (rule spots_new_nth)
    with occ show False by (simp add: ParkingSpot_new_def)
  qed
  have unlisted: "\<not> listed (ParkingLot_new numFloors spotsPerFloor) plate g i" for plate g i
    by (simp add: listed_def ParkingLot_new_def)
  from wf free unlisted show ?thesis
    by (simp add: lot_inv_def) (simp add: ParkingLot_new_def)
qed

lemma lot_inv_park:
  assumes inv: "lot_inv lot"
    and run: "ParkingLot_parkVehicle lot v = Inr (ok, out, lot')"
  shows "lot_inv lot'"
proof (cases ok)
  case False
  with run have "lot' = lot" by (simp add: park_false_unchanged)
  with inv show ?thesis by simp
next
  case True
  from inv have wf: "floors_wf (floors lot)"
    and agree: "\<And>plate g i. occupied_by lot plate g i \<longleftrightarrow> listed lot plate g i"
    and keys: "dom (vehicleLocations lot) = dom (vehiclesMap lot)"
    and nonempty: "\<And>plate g. vehicleLocations lot plate \<noteq> Some (g, [])"
    by (simp_all add: lot_inv_def)
  let ?p = "licensePlate v" and ?k = "required v"
  from run True have "ParkingLot_parkVehicle lot v = Inr (True, out, lot')" by simp
  from park_success [OF wf this] obtain f j where
    f: "f < length (floors lot)"
    and ff: "first_fit (spots (floors lot ! f)) ?k j"
    and absent: "vehicleLocations lot ?p = None"
    and lot': "lot' = lot\<lparr>floors := (floors lot)[f := (floors lot ! f)\<lparr>spots :=
                    occupy_range ?p j ?k (spots (floors lot ! f))\<rparr>],
                  vehicleLocations := (vehicleLocations lot)(?p \<mapsto> (int f, map int [j..<j + ?k])),
                  vehiclesMap := (vehiclesMap lot)(?p \<mapsto> v)\<rparr>"
    by blast
  from ff have fit: "fits (spots (floors lot ! f)) ?k j" by (simp add: first_fit_def)
  from lot' have fl: "floors lot' = (floors lot)[f := (floors lot ! f)\<lparr>spots :=
        occupy_range ?p j ?k (spots (floors lot ! f))\<rparr>]"
    and vl: "vehicleLocations lot' = (vehicleLocations lot)(?p \<mapsto> (int f, map int [j..<j + ?k]))"
    and vm: "vehiclesMap lot' = (vehiclesMap lot)(?p \<mapsto> v)"
    by simp_all
  from wf f have "floor_wf f (floors lot ! f)" by (simp add: floors_wf_def)
  then have wf': "floors_wf (floors lot')"
    unfolding fl by (intro floors_wf_update wf f floor_wf_occupy_range)
  have not_listed: "\<not> listed lot ?p g i" for g i
    using absent by (simp add: listed_def)
  have agree': "occupied_by lot' plate g i \<longleftrightarrow> listed lot' plate g i" for plate g i
  proof (cases "g = int f \<and> 0 \<le> i \<and> j \<le> nat i \<and> nat i < j + ?k")
    case target: True
    then have "nat i - j < ?k" by linarith
    from fits_in_range [OF fit this] fits_free [OF fit this] target
    have range: "nat i < length (spots (floors lot ! f))"
      and free: "\<not> isOccupied (spots (floors lot ! f) ! nat i)" by simp_all
    from f target range have "spot_at lot g i = Some (spots (floors lot ! f) ! nat i)"
      by (simp add: spot_at_target)
    with free have "\<not> occupied_by lot plate g i"
      by (simp add: occupied_by_def holds_plate_def)
    then have "\<not> listed lot plate g i" by (simp add: agree)
    with target show ?thesis
      by (simp add: occupied_by_after_park [OF fl f fit] listed_after_park [OF vl])
  next
    case other: False
    have occ: "occupied_by lot' plate g i = occupied_by lot plate g i"
      by (simp only: occupied_by_after_park [OF fl f fit] other if_False)
    have lst: "listed lot' plate g i = (if plate = ?p then False else listed lot plate g i)"
      by (simp only: listed_after_park [OF vl] other)
    from occ lst agree not_listed show ?thesis
      by (cases "plate = ?p") simp_all
  qed
  have keys': "dom (vehicleLocations lot') = dom (vehiclesMap lot')"
    by (simp add: vl vm keys)
  have nonempty': "vehicleLocations lot' plate \<noteq> Some (g, [])" for plate g
    using nonempty [of plate g] by (simp add: vl required_eq)
  from wf' agree' keys' nonempty' show ?thesis
    by (simp add: lot_inv_def)
qed

lemma remove_found:
  assumes inv: "lot_inv lot"
    and entry: "vehicleLocations lot plate = Some (fnum, spotNumbers)"
  shows "\<exists>f. fnum = int f \<and> f < length (floors lot)
      \<and> ParkingLot_removeVehicle lot plate =
          Inr (True, [MsgRemoved plate fnum],
            lot\<lparr>floors := (floors lot)[f := (floors lot ! f)\<lparr>spots :=
                   map (release_if plate) (spots (floors lot ! f))\<rparr>],
                vehicleLocations := (vehicleLocations lot)(plate := None),
                vehiclesMap := (vehiclesMap lot)(plate := None)\<rparr>)"
proof -
  from inv entry have "spotNumbers \<noteq> []" by (auto simp: lot_inv_def)
  then obtain i where i: "i \<in> set spotNumbers" by (cases spotNumbers) auto
  with entry have "listed lot plate fnum i" by (simp add: listed_def)
  with inv have "occupied_by lot plate fnum i" by (simp add: lot_inv_def)
  then obtain s where s: "spot_at lot fnum i = Some s" "holds_plate plate s"
    by (auto simp: occupied_by_def split: option.splits)
  from s(1) have range: "0 \<le> fnum" "nat fnum < length (floors lot)"
    and mem: "s \<in> set (spots (floors lot ! nat fnum))"
    by (auto simp: spot_at_def split: if_splits)
  from mem s(2) have "\<exists>s\<in>set (spots (floors lot ! nat fnum)). holds_plate plate s" by blast
  with entry range have "ParkingLot_removeVehicle lot plate =
          Inr (True, [MsgRemoved plate fnum],
            lot\<lparr>floors := (floors lot)[nat fnum := (floors lot ! nat fnum)\<lparr>spots :=
                   map (release_if plate) (spots (floors lot ! nat fnum))\<rparr>],
                vehicleLocations := (vehicleLocations lot)(plate := None),
                vehiclesMap := (vehiclesMap lot)(plate := None)\<rparr>)"
    by (simp add: ParkingLot_removeVehicle_def Floor_removeVehicle_eq)
  with range show ?thesis by (intro exI [of _ "nat fnum"]) simp
qed

lemma lot_inv_remove:
  assumes inv: "lot_inv lot"
    and run: "ParkingLot_removeVehicle lot plate = Inr (ok, out, lot')"
  shows "lot_inv lot'"
proof (cases "vehicleLocations lot plate")
  case None
  with run have "lot' = lot" by (simp add: ParkingLot_removeVehicle_def)
  with inv show ?thesis by simp
next
  case (Some entry)
  obtain fnum spotNumbers where entry: "vehicleLocations lot plate = Some (fnum, spotNumbers)"
    using Some by (cases entry) simp
  from inv have wf: "floors_wf (floors lot)"
    and agree: "\<And>plate g i. occupied_by lot plate g i \<longleftrightarrow> listed lot plate g i"
    and keys: "dom (vehicleLocations lot) = dom (vehiclesMap lot)"
    and nonempty: "\<And>plate g. vehicleLocations lot plate \<noteq> Some (g, [])"
    by (simp_all add: lot_inv_def)
  from remove_found [OF inv entry] run obtain f where
    fnum: "fnum = int f" and f: "f < length (floors lot)"
    and lot': "lot' = lot\<lparr>floors := (floors lot)[f := (floors lot ! f)\<lparr>spots :=
                   map (release_if plate) (spots (floors lot ! f))\<rparr>],
                vehicleLocations := (vehicleLocations lot)(plate := None),
                vehiclesMap := (vehiclesMap lot)(plate := None)\<rparr>"
    by auto
  from lot' have fl: "floors lot' = (floors lot)[f := (floors lot ! f)\<lparr>spots :=
        map (release_if plate) (spots (floors lot ! f))\<rparr>]"
    and vl: "vehicleLocations lot' = (vehicleLocations lot)(plate := None)"
    and vm: "vehiclesMap lot' = (vehiclesMap lot)(plate := None)"
    by simp_all
  from wf f have "floor_wf f (floors lot ! f)" by (simp add: floors_wf_def)
  then have wf': "floors_wf (floors lot')"
    unfolding fl by (intro floors_wf_update wf f floor_wf_release)
  have elsewhere: "\<not> listed lot plate g i" if "g \<noteq> int f" for g i
    using that entry fnum by (simp add: listed_def)
  have agree': "occupied_by lot' plate' g i \<longleftrightarrow> listed lot' plate' g i" for plate' g i
    using elsewhere [of g i]
    by (auto simp: occupied_by_after_release [OF fl f] listed_after_remove [OF vl] agree)
  have keys': "dom (vehicleLocations lot') = dom (vehiclesMap lot')"
    by (simp add: vl vm keys)
  have nonempty': "vehicleLocations lot' plate' \<noteq> Some (g, [])" for plate' g
    using nonempty [of plate' g] by (simp add: vl)
  from wf' agree' keys' nonempty' show ?thesis
    by (simp add: lot_inv_def)
qed

lemma reachable_inv: "reachable lot \<Longrightarrow> lot_inv lot"
proof (induction rule: reachable.induct)
  case (constructed numFloors spotsPerFloor)
  then show ?case by (simp add: lot_inv_new)
next
  case (parked lot vehicle ok out lot')
  then show ?case by (blast intro: lot_inv_park)
next
  case (removed lot plate ok out lot')
  then show ?case by (blast intro: lot_inv_remove)
next
  case (counted lot counts lot')
  then show ?case by (simp add: getAvailableSpotsPerFloor_def)
next
  case (asked_full lot full lot')
  then show ?case by (simp add: isFull_def)
next
  case (looked_up lot plate out lot')
  then show ?case by (auto simp: findVehicle_def split: option.splits)
qed

section \<open>Releasing what a park occupied\<close>

lemma release_occupy:
  "\<not> isOccupied s \<Longrightarrow> parkedVehicle s = [] \<Longrightarrow> release_if plate (occupy plate s) = s"
  by (simp add: release_if_def occupy_def holds_plate_def)

lemma release_occupy_range:
  assumes wf: "\<forall>i<length spts. \<not> isOccupied (spts ! i) \<longrightarrow> parkedVehicle (spts ! i) = []"
    and fit: "fits spts k j"
    and fresh: "\<forall>i<length spts. \<not> holds_plate plate (spts ! i)"
  shows "map (release_if plate) (occupy_range plate j k spts) = spts"
proof (rule nth_equalityI)
  show "length (map (release_if plate) (occupy_range plate j k spts)) = length spts"
    by simp
next
  fix i assume "i < length (map (release_if plate) (occupy_range plate j k spts))"
  then have i: "i < length spts" by simp
  show "map (release_if plate) (occupy_range plate j k spts) ! i = spts ! i"
  proof (cases "j \<le> i \<and> i < j + k")
    case True
    then have "i - j < k" by linarith
    from fits_free [OF fit this] True have "\<not> isOccupied (spts ! i)" by simp
    with wf i have "release_if plate (occupy plate (spts ! i)) = spts ! i"
      by (simp add: release_occupy)
    with True i show ?thesis by (simp add: nth_occupy_range)
  next
    case False
    from fresh i have same: "release_if plate (spts ! i) = spts ! i"
      by (simp add: release_if_def)
    from i have "occupy_range plate j k spts ! i
        = (if j \<le> i \<and> i < j + k then occupy plate (spts ! i) else spts ! i)"
      by (rule nth_occupy_range)
    then have "occupy_range plate j k spts ! i = spts ! i"
      by (simp only: False if_False)
    with same i show ?thesis by simp
  qed
qed

section \<open>The example states are reachable\<close>

lemma new_1_4: "ParkingLot_new 1 4 = lot_empty"
  by (simp add: ParkingLot_new_def Floor_new_def lot_empty_def length_upt_4)

lemma park_C1: "ParkingLot_parkVehicle lot_empty car_C1 = Inr (True, [MsgParked ''C1'' 0 [0]], lot_C1)"
  by (simp add: park_defs example_defs)

lemma park_T1:
  "ParkingLot_parkVehicle lot_C1 truck_T1 = Inr (True, [MsgParked ''T1'' 0 [1, 2]], lot_C1_T1)"
  by (simp add: park_defs example_defs)

lemma reachable_lot_empty: "reachable lot_empty"
proof -
  have "reachable (ParkingLot_new 1 4)"
    by (rule reachable.constructed) (simp_all add: int_range_def)
  then show ?thesis by (simp add: new_1_4)
qed

lemma reachable_lot_C1: "reachable lot_C1"
  by (rule reachable.parked [OF reachable_lot_empty park_C1])

lemma reachable_lot_C1_T1: "reachable lot_C1_T1"
  by (rule reachable.parked [OF reachable_lot_C1 park_T1])

section \<open>First fit\<close>

text \<open>
  C1. In every reachable state, a park that succeeds places the vehicle at the first fit:
  on the lowest floor that has the required number of adjacent free spots (one, or two
  for a truck), at the smallest starting index of that floor; a truck gets that index
  and the next one. The location is both printed and stored in the location map.
\<close>

theorem park_returns_first_fit:
  assumes reach: "reachable lot"
    and run: "ParkingLot_parkVehicle lot v = Inr (True, out, lot')"
  shows "\<exists>f j. f < length (floors lot)
      \<and> fits (spots (floors lot ! f)) (required v) j
      \<and> (\<forall>j'<j. \<not> fits (spots (floors lot ! f)) (required v) j')
      \<and> (\<forall>f'<f. \<forall>j'. \<not> fits (spots (floors lot ! f')) (required v) j')
      \<and> out = [MsgParked (licensePlate v) (int f)
                 (if type v = Truck then [int j, int j + 1] else [int j])]
      \<and> vehicleLocations lot' (licensePlate v)
          = Some (int f, if type v = Truck then [int j, int j + 1] else [int j])"
proof -
  from reach have "lot_inv lot" by (rule reachable_inv)
  then have wf: "floors_wf (floors lot)" by (simp add: lot_inv_def)
  from park_success [OF wf run] obtain f j where
    f: "f < length (floors lot)"
    and ff: "first_fit (spots (floors lot ! f)) (required v) j"
    and below: "\<forall>f'<f. \<forall>j'. \<not> fits (spots (floors lot ! f')) (required v) j'"
    and out: "out = [MsgParked (licensePlate v) (int f) (map int [j..<j + required v])]"
    and lot': "lot' = lot\<lparr>floors := (floors lot)[f := (floors lot ! f)\<lparr>spots :=
                    occupy_range (licensePlate v) j (required v) (spots (floors lot ! f))\<rparr>],
                  vehicleLocations := (vehicleLocations lot)
                    (licensePlate v \<mapsto> (int f, map int [j..<j + required v])),
                  vehiclesMap := (vehiclesMap lot)(licensePlate v \<mapsto> v)\<rparr>"
    by blast
  have shape: "map int [j..<j + required v]
      = (if type v = Truck then [int j, int j + 1] else [int j])"
    by (simp add: required_eq upt_two)
  from lot' have entry: "vehicleLocations lot' (licensePlate v)
      = Some (int f, map int [j..<j + required v])"
    by simp
  from f ff below out entry show ?thesis
    unfolding shape first_fit_def by blast
qed

theorem park_returns_first_fit_witness:
  "reachable lot_C1
   \<and> ParkingLot_parkVehicle lot_C1 truck_T1 = Inr (True, [MsgParked ''T1'' 0 [1, 2]], lot_C1_T1)
   \<and> fits (spots (floors lot_C1 ! 0)) (required truck_T1) 1
   \<and> \<not> fits (spots (floors lot_C1 ! 0)) (required truck_T1) 0"
proof -
  from park_returns_first_fit [OF reachable_lot_C1 park_T1] obtain f j where
    fit: "fits (spots (floors lot_C1 ! f)) (required truck_T1) j"
    and least: "\<forall>j'<j. \<not> fits (spots (floors lot_C1 ! f)) (required truck_T1) j'"
    and out: "[MsgParked ''T1'' 0 [1, 2]] = [MsgParked (licensePlate truck_T1) (int f)
                 (if type truck_T1 = Truck then [int j, int j + 1] else [int j])]"
    by blast
  from out have "f = 0" and "j = 1" by (simp_all add: truck_T1_def)
  with fit least reachable_lot_C1 park_T1 show ?thesis by simp
qed

section \<open>The location map and the spots\<close>

text \<open>
  C2. In every reachable state (after the constructor and after every completed
  operation), for a plate with entry \<open>(f, I)\<close> in the location map the spots occupied
  by that plate are exactly the spots of floor \<open>f\<close> with an index in \<open>I\<close>; and a spot is
  occupied by a plate if and only if the location map has an entry for the plate that
  lists the spot.
\<close>

theorem spots_agree_with_location_index:
  assumes reach: "reachable lot"
  shows "(vehicleLocations lot plate = Some (f, spotNumbers) \<longrightarrow>
            (\<forall>g i. occupied_by lot plate g i \<longleftrightarrow> g = f \<and> i \<in> set spotNumbers))
     \<and> (occupied_by lot plate g i \<longleftrightarrow>
            (\<exists>f' spotNumbers'. vehicleLocations lot plate = Some (f', spotNumbers')
                \<and> g = f' \<and> i \<in> set spotNumbers'))"
proof -
  from reach have "lot_inv lot" by (rule reachable_inv)
  then have agree: "occupied_by lot plate g i \<longleftrightarrow> listed lot plate g i" for g i
    by (simp add: lot_inv_def)
  show ?thesis
    unfolding agree by (auto simp: listed_def split: option.splits)
qed

theorem spots_agree_with_location_index_witness:
  "reachable lot_C1_T1
   \<and> vehicleLocations lot_C1_T1 ''T1'' = Some (0, [1, 2])
   \<and> occupied_by lot_C1_T1 ''T1'' 0 1 \<and> occupied_by lot_C1_T1 ''T1'' 0 2
   \<and> \<not> occupied_by lot_C1_T1 ''T1'' 0 0 \<and> \<not> occupied_by lot_C1_T1 ''T1'' 0 3"
proof -
  have entry: "vehicleLocations lot_C1_T1 ''T1'' = Some (0, [1, 2])"
    by (simp add: lot_C1_T1_def)
  from spots_agree_with_location_index [OF reachable_lot_C1_T1, of "''T1''" 0 "[1, 2]"] entry
  have "occupied_by lot_C1_T1 ''T1'' g i \<longleftrightarrow> g = 0 \<and> i \<in> set [1, 2]" for g i
    by blast
  with reachable_lot_C1_T1 entry show ?thesis by simp
qed

section \<open>Park, then remove\<close>

text \<open>
  C8. In every reachable state, after a park that succeeds, removing the same plate
  succeeds and gives back the lot as it was before the park; in particular every floor
  has the free count it had before.
\<close>

theorem park_then_remove_restores:
  assumes reach: "reachable lot"
    and run: "ParkingLot_parkVehicle lot v = Inr (True, out, lot')"
  shows "\<exists>f spotNumbers lot''.
        vehicleLocations lot' (licensePlate v) = Some (f, spotNumbers)
      \<and> ParkingLot_removeVehicle lot' (licensePlate v)
          = Inr (True, [MsgRemoved (licensePlate v) f], lot'')
      \<and> lot'' = lot
      \<and> fst (getAvailableSpotsPerFloor lot'') = fst (getAvailableSpotsPerFloor lot)"
proof -
  let ?p = "licensePlate v" and ?k = "required v"
  from reach have inv: "lot_inv lot" by (rule reachable_inv)
  then have wf: "floors_wf (floors lot)"
    and agree: "\<And>plate g i. occupied_by lot plate g i \<longleftrightarrow> listed lot plate g i"
    and keys: "dom (vehicleLocations lot) = dom (vehiclesMap lot)"
    by (simp_all add: lot_inv_def)
  from inv run have inv': "lot_inv lot'" by (rule lot_inv_park)
  from park_success [OF wf run] obtain f j where
    f: "f < length (floors lot)"
    and ff: "first_fit (spots (floors lot ! f)) ?k j"
    and absent: "vehicleLocations lot ?p = None"
    and lot': "lot' = lot\<lparr>floors := (floors lot)[f := (floors lot ! f)\<lparr>spots :=
                    occupy_range ?p j ?k (spots (floors lot ! f))\<rparr>],
                  vehicleLocations := (vehicleLocations lot)(?p \<mapsto> (int f, map int [j..<j + ?k])),
                  vehiclesMap := (vehiclesMap lot)(?p \<mapsto> v)\<rparr>"
    by blast
  let ?spts = "spots (floors lot ! f)"
  from ff have fit: "fits ?spts ?k j" by (simp add: first_fit_def)
  from lot' have entry: "vehicleLocations lot' ?p = Some (int f, map int [j..<j + ?k])"
    by simp
  from remove_found [OF inv' entry] obtain f' where f': "int f = int f'"
    and removed: "ParkingLot_removeVehicle lot' ?p =
          Inr (True, [MsgRemoved ?p (int f)],
            lot'\<lparr>floors := (floors lot')[f' := (floors lot' ! f')\<lparr>spots :=
                   map (release_if ?p) (spots (floors lot' ! f'))\<rparr>],
                vehicleLocations := (vehicleLocations lot')(?p := None),
                vehiclesMap := (vehiclesMap lot')(?p := None)\<rparr>)"
    by blast
  from f' have [simp]: "f' = f" by simp
  from wf f have fwf: "floor_wf f (floors lot ! f)" by (simp add: floors_wf_def)
  then have empty_plates:
    "\<forall>i<length ?spts. \<not> isOccupied (?spts ! i) \<longrightarrow> parkedVehicle (?spts ! i) = []"
    by (simp add: floor_wf_def spot_wf_def)
  have fresh: "\<forall>i<length ?spts. \<not> holds_plate ?p (?spts ! i)"
  proof (intro allI impI)
    fix i assume i: "i < length ?spts"
    from absent have "\<not> listed lot ?p (int f) (int i)" by (simp add: listed_def)
    then have "\<not> occupied_by lot ?p (int f) (int i)" by (simp add: agree)
    with f i show "\<not> holds_plate ?p (?spts ! i)"
      by (simp add: occupied_by_def spot_at_def)
  qed
  have undo: "map (release_if ?p) (occupy_range ?p j ?k ?spts) = ?spts"
    by (rule release_occupy_range [OF empty_plates fit fresh])
  from absent have "?p \<notin> dom (vehicleLocations lot)" by (simp add: domIff)
  with keys have "?p \<notin> dom (vehiclesMap lot)" by simp
  then have absent': "vehiclesMap lot ?p = None" by (simp add: domIff)
  have "lot'\<lparr>floors := (floors lot')[f' := (floors lot' ! f')\<lparr>spots :=
                   map (release_if ?p) (spots (floors lot' ! f'))\<rparr>],
                vehicleLocations := (vehicleLocations lot')(?p := None),
                vehiclesMap := (vehiclesMap lot')(?p := None)\<rparr> = lot"
    using f
    by (simp add: lot' undo
        fun_upd_idem [of "vehicleLocations lot" ?p None, OF absent]
        fun_upd_idem [of "vehiclesMap lot" ?p None, OF absent'])
  with removed entry show ?thesis by simp
qed

theorem park_then_remove_restores_witness:
  "reachable lot_C1
   \<and> ParkingLot_parkVehicle lot_C1 truck_T1 = Inr (True, [MsgParked ''T1'' 0 [1, 2]], lot_C1_T1)
   \<and> ParkingLot_removeVehicle lot_C1_T1 ''T1'' = Inr (True, [MsgRemoved ''T1'' 0], lot_C1)"
proof -
  have entry: "vehicleLocations lot_C1_T1 (licensePlate truck_T1) = Some (0, [1, 2])"
    by (simp add: lot_C1_T1_def truck_T1_def)
  from park_then_remove_restores [OF reachable_lot_C1 park_T1] entry
  have "ParkingLot_removeVehicle lot_C1_T1 (licensePlate truck_T1)
      = Inr (True, [MsgRemoved (licensePlate truck_T1) 0], lot_C1)"
    by auto
  with reachable_lot_C1 park_T1 show ?thesis by (simp add: truck_T1_def)
qed

end
